theory Spec2Isabelle
  imports Main
begin

section \<open>safe\_uploader.py: constants, errors, paths\<close>

text \<open>
  The module is Python 2 (it calls \<^verbatim>\<open>urllib.quote_plus\<close>). Everything the program asks
  of the operating system is answered by an explicit environment value, every \<^verbatim>\<open>raise\<close>
  is a value of type \<open>error\<close>, and every externally visible action is appended to a
  trace, so that claims about ordering are claims about lists.
\<close>

definition TERM_DIR :: string where
  "TERM_DIR = ''repeater_lock_dir''"

definition TERM_STRING :: string where
  "TERM_STRING = ''TIME_TO_DIE''"

text \<open>A path is its list of components; \<^verbatim>\<open>os.path.join(d, name)\<close> appends one.\<close>

type_synonym path = "string list"

type_synonym pid = nat

datatype error =
    IOError string
  | OSError string
  | ProcFailure string int
  | CheckFailure string
  | UnboundLocalError string

section \<open>The termination token as the relay sees it\<close>

text \<open>
  \<^verbatim>\<open>check_term_file\<close> opens the file (an \<^verbatim>\<open>IOError\<close> when it is not there), reads
  at most \<^verbatim>\<open>len(TERM_STRING)\<close> characters and compares them with the magic string.
\<close>

definition check_term_file :: "(path \<rightharpoonup> string) \<Rightarrow> path \<Rightarrow> error + bool" where
  "check_term_file fs term_path =
     (case fs term_path of
        None \<Rightarrow> Inl (IOError ''No such file or directory'')
      | Some content \<Rightarrow>
          (let contents = take (length TERM_STRING) content
           in if contents = TERM_STRING then Inr True else Inr False))"

section \<open>The relay: \<^verbatim>\<open>main\<close>\<close>

text \<open>
  One \<open>tick\<close> is what the outside world presents to one iteration of
  \<^verbatim>\<open>while True\<close>: the value \<^verbatim>\<open>sys.stdin.read(BLOCK)\<close> returns, whether
  \<^verbatim>\<open>sys.stdout.write\<close> raises in this iteration, and the files that exist when the
  termination path is polled. The list of ticks is the observation horizon: when it is
  used up the relay is still \<open>Running\<close>.
\<close>

record tick =
  stdin_read :: string
  stdout_fault :: "error option"
  files_now :: "path \<rightharpoonup> string"

datatype relay_event =
    Read string
  | Nap
  | Write string
  | WriteFailed string
  | PathExists path
  | CheckTermFile path

datatype outcome = Exited int | Uncaught error | Running


text \<open>The body of the loop, lines 29 to 40; \<open>Running\<close> means: go round again.\<close>

definition iteration :: "path \<Rightarrow> tick \<Rightarrow> relay_event list \<times> outcome" where
  "iteration terminate_path t =
     (let data = stdin_read t in
      if length data = 0 then
        (case stdout_fault t of
           Some e \<Rightarrow> ([Read data, Nap, WriteFailed data], Uncaught e)
         | None \<Rightarrow>
             if files_now t terminate_path \<noteq> None then
               (case check_term_file (files_now t) terminate_path of
                  Inl e \<Rightarrow>
                    ([Read data, Nap, Write data, PathExists terminate_path,
                      CheckTermFile terminate_path], Uncaught e)
                | Inr b \<Rightarrow>
                    ([Read data, Nap, Write data, PathExists terminate_path,
                      CheckTermFile terminate_path],
                     if b then Exited 0 else Running))
             else ([Read data, Nap, Write data, PathExists terminate_path], Running))
      else
        (case stdout_fault t of
           Some e \<Rightarrow> ([Read data, WriteFailed data], Uncaught e)
         | None \<Rightarrow> ([Read data, Write data], Running)))"

fun main :: "path \<Rightarrow> tick list \<Rightarrow> relay_event list \<times> outcome" where
  "main terminate_path [] = ([], Running)"
| "main terminate_path (t # ts) =
     (case iteration terminate_path t of
        (evs, Running) \<Rightarrow>
          (case main terminate_path ts of (tr, oc) \<Rightarrow> (evs @ tr, oc))
      | (evs, oc) \<Rightarrow> (evs, oc))"

text \<open>The bytes taken from standard input and the bytes put on standard output.\<close>

fun consumed :: "relay_event list \<Rightarrow> string" where
  "consumed [] = []"
| "consumed (Read d # evs) = d @ consumed evs"
| "consumed (e # evs) = consumed evs"

fun emitted :: "relay_event list \<Rightarrow> string" where
  "emitted [] = []"
| "emitted (Write d # evs) = d @ emitted evs"
| "emitted (e # evs) = emitted evs"

text \<open>A tick at which a poll of the token would find the magic string in front.\<close>

definition signaled :: "path \<Rightarrow> tick \<Rightarrow> bool" where
  "signaled p t =
     (case files_now t p of
        None \<Rightarrow> False
      | Some c \<Rightarrow> take (length TERM_STRING) c = TERM_STRING)"

section \<open>Process groups\<close>

text \<open>
  \<^verbatim>\<open>Popen.poll()\<close> answers \<^verbatim>\<open>None\<close> for a process that has not exited and the return
  code otherwise. A group is a dict from a name to a handle; a handle is identified with
  its pid, and the dict is kept as a list in iteration order. A \<open>snapshot\<close> is the
  process table at one moment.
\<close>

datatype proc_status = NotExited | ExitCode int

type_synonym procs = "(string \<times> pid) list"

type_synonym snapshot = "pid \<Rightarrow> proc_status"

text \<open>
  Modelled from the spec: \<^verbatim>\<open>host_utils.check_dict_of_procs\<close> lives in \<^verbatim>\<open>lib/host_utils\<close>,
  which is not among the sources. Section 4.3: a non-blocking poll of every handle; true
  only once every handle has exited with success; a handle that has exited with a
  non-success status raises a fatal condition carrying its name and exit code.
\<close>

fun check_dict_of_procs :: "procs \<Rightarrow> snapshot \<Rightarrow> error + bool" where
  "check_dict_of_procs [] s = Inr True"
| "check_dict_of_procs ((name, p) # ps) s =
     (case s p of
        ExitCode c \<Rightarrow>
          if c = 0 then check_dict_of_procs ps s else Inl (ProcFailure name c)
      | NotExited \<Rightarrow>
          (case check_dict_of_procs ps s of
             Inl e \<Rightarrow> Inl e
           | Inr b \<Rightarrow> Inr False))"

section \<open>Killing processes: \<^verbatim>\<open>kill_precursor_procs\<close>\<close>

text \<open>
  \<open>pid_exists\<close> is \<^verbatim>\<open>psutil.pid_exists\<close>; \<open>kill_fault\<close> says for which pid
  \<^verbatim>\<open>Popen.kill()\<close> raises (the process may be gone by the time the signal is sent).
\<close>

record world =
  pid_exists :: "pid \<Rightarrow> bool"
  kill_fault :: "pid \<Rightarrow> error option"

datatype group = Precursor | Upload

datatype event =
    GetTermFile
  | Popen string
  | CheckProcs group
  | Sleep
  | CheckFunc
  | WriteTerm path
  | PidExists pid
  | Kill pid
  | Remove path

definition kill :: "world \<Rightarrow> pid \<Rightarrow> error + unit" where
  "kill w p = (case kill_fault w p of Some e \<Rightarrow> Inl e | None \<Rightarrow> Inr ())"

text \<open>\<^verbatim>\<open>try: ... except: pass\<close> around a statement.\<close>

definition except_pass :: "error + unit \<Rightarrow> error + unit" where
  "except_pass r = (case r of Inl e \<Rightarrow> Inr () | Inr u \<Rightarrow> Inr u)"

text \<open>
  The values of the dict are handles or something falsy such as \<^verbatim>\<open>None\<close>, which is
  \<open>None\<close> here. The result is the trace and whether the call raised.
\<close>

fun kill_precursor_procs ::
  "(string \<times> pid option) list \<Rightarrow> world \<Rightarrow> event list \<times> (error + unit)" where
  "kill_precursor_procs [] w = ([], Inr ())"
| "kill_precursor_procs ((proc, h) # procs) w =
     (case h of
        None \<Rightarrow> kill_precursor_procs procs w
      | Some p \<Rightarrow>
          if pid_exists w p then
            (case except_pass (kill w p) of
               Inl e \<Rightarrow> ([PidExists p, Kill p], Inl e)
             | Inr u \<Rightarrow>
                 (case kill_precursor_procs procs w of
                    (tr, r) \<Rightarrow> ([PidExists p, Kill p] @ tr, r)))
          else
            (case kill_precursor_procs procs w of
               (tr, r) \<Rightarrow> (PidExists p # tr, r)))"

section \<open>Creating the token: \<^verbatim>\<open>get_term_dir\<close>, \<^verbatim>\<open>get_term_file\<close>\<close>

record filesys =
  dirs :: "path list"
  files :: "path \<rightharpoonup> string"

definition path_exists :: "filesys \<Rightarrow> path \<Rightarrow> bool" where
  "path_exists fs p = (p \<in> set (dirs fs) \<or> files fs p \<noteq> None)"

definition mkdir :: "filesys \<Rightarrow> path \<Rightarrow> error + filesys" where
  "mkdir fs p =
     (if path_exists fs p then Inl (OSError ''File exists'')
      else if butlast p \<notin> set (dirs fs) then Inl (OSError ''No such file or directory'')
      else Inr (fs\<lparr>dirs := p # dirs fs\<rparr>))"

text \<open>
  \<^verbatim>\<open>tempfile.mkstemp(dir=d)\<close> of the Python 2 library: it draws candidate names and
  opens \<^verbatim>\<open>d/tmp<name>\<close> with \<^verbatim>\<open>O_CREAT | O_EXCL\<close>; a name that exists is skipped, any
  other failure is raised, and running out of candidates raises \<^verbatim>\<open>IOError\<close>. The first
  argument is the sequence of candidates the name generator yields.
\<close>

fun mkstemp :: "string list \<Rightarrow> path \<Rightarrow> filesys \<Rightarrow> error + (path \<times> filesys)" where
  "mkstemp [] dir fs = Inl (IOError ''No usable temporary file name found'')"
| "mkstemp (name # names) dir fs =
     (let file = dir @ [''tmp'' @ name] in
      if dir \<notin> set (dirs fs) then Inl (OSError ''No such file or directory'')
      else if path_exists fs file then mkstemp names dir fs
      else Inr (file, fs\<lparr>files := (files fs)(file \<mapsto> [])\<rparr>))"

text \<open>\<open>raid_mount\<close> stands for \<^verbatim>\<open>environment_specific.RAID_MOUNT\<close>.\<close>

definition get_term_dir :: "path \<Rightarrow> filesys \<Rightarrow> error + (path \<times> filesys)" where
  "get_term_dir raid_mount fs =
     (let term_dir = raid_mount @ [TERM_DIR] in
      if \<not> path_exists fs term_dir then
        (case mkdir fs term_dir of
           Inl e \<Rightarrow> Inl e
         | Inr fs' \<Rightarrow> Inr (term_dir, fs'))
      else Inr (term_dir, fs))"

definition get_term_file ::
  "path \<Rightarrow> string list \<Rightarrow> filesys \<Rightarrow> error + (path \<times> filesys)" where
  "get_term_file raid_mount names fs =
     (case get_term_dir raid_mount fs of
        Inl e \<Rightarrow> Inl e
      | Inr (term_dir, fs1) \<Rightarrow> mkstemp names term_dir fs1)"

section \<open>The orchestrator: \<^verbatim>\<open>safe_upload\<close>\<close>

text \<open>
  What the outside world answers during one call: the file system and the candidate
  names when the token is created, what the two \<^verbatim>\<open>Popen\<close> calls give (evaluating
  their arguments included), the process table at each iteration of the two polling
  loops, whether writing the magic string raises, the process world at teardown, and
  whether \<^verbatim>\<open>os.remove\<close> raises. The list of snapshots is the observation horizon: a
  loop that uses it up is still polling, and the call is \<open>Pending\<close>. Opening
  \<^verbatim>\<open>os.devnull\<close>, line 112 and before the \<^verbatim>\<open>try\<close> statement, is taken to succeed. The
  two children are listed in the order in which the dict receives them; the order
  matters only for which of two failed children the monitor names.
\<close>

record env =
  raid_mount :: path
  tmp_names :: "string list"
  fs0 :: filesys
  popen_repeater :: "error + pid"
  popen_uploader :: "error + pid"
  polls :: "snapshot list"
  write_term :: "error option"
  procs_world :: world
  remove_fault :: "error option"

datatype 'a result = Returns 'a | Raises error | Pending

text \<open>The locals the \<^verbatim>\<open>except\<close> and \<^verbatim>\<open>finally\<close> clauses read.\<close>

record locals =
  term_path :: "path option"
  upload_procs :: procs

text \<open>Lines 115 to 124: the two children, in this order.\<close>

definition spawn :: "env \<Rightarrow> procs \<times> event list \<times> error option" where
  "spawn ev =
     (case popen_repeater ev of
        Inl e \<Rightarrow> ([], [Popen ''repeater''], Some e)
      | Inr r \<Rightarrow>
          (case popen_uploader ev of
             Inl e \<Rightarrow>
               ([(''repeater'', r)], [Popen ''repeater'', Popen ''uploader''], Some e)
           | Inr u \<Rightarrow>
               ([(''repeater'', r), (''uploader'', u)],
                [Popen ''repeater'', Popen ''uploader''], None)))"

text \<open>Lines 129 to 131; on success the snapshots not yet used are handed on.\<close>

fun wait_precursors ::
  "procs \<Rightarrow> procs \<Rightarrow> snapshot list \<Rightarrow> event list \<times> snapshot list result" where
  "wait_precursors precursor_procs ups [] = ([], Pending)"
| "wait_precursors precursor_procs ups (s # ss) =
     (case check_dict_of_procs precursor_procs s of
        Inl e \<Rightarrow> ([CheckProcs Precursor], Raises e)
      | Inr True \<Rightarrow> ([CheckProcs Precursor], Returns ss)
      | Inr False \<Rightarrow>
          (case check_dict_of_procs ups s of
             Inl e \<Rightarrow> ([CheckProcs Precursor, CheckProcs Upload], Raises e)
           | Inr b \<Rightarrow>
               (case wait_precursors precursor_procs ups ss of
                  (tr, r) \<Rightarrow> ([CheckProcs Precursor, CheckProcs Upload, Sleep] @ tr, r))))"

text \<open>Lines 144 and 145.\<close>

fun wait_uploads :: "procs \<Rightarrow> snapshot list \<Rightarrow> event list \<times> unit result" where
  "wait_uploads ups [] = ([], Pending)"
| "wait_uploads ups (s # ss) =
     (case check_dict_of_procs ups s of
        Inl e \<Rightarrow> ([CheckProcs Upload], Raises e)
      | Inr True \<Rightarrow> ([CheckProcs Upload], Returns ())
      | Inr False \<Rightarrow>
          (case wait_uploads ups ss of
             (tr, r) \<Rightarrow> ([CheckProcs Upload, Sleep] @ tr, r)))"

text \<open>Lines 135 and 136: \<^verbatim>\<open>if check_func: check_func(check_arg)\<close>.\<close>

definition run_check ::
  "('a \<Rightarrow> error option) option \<Rightarrow> 'a \<Rightarrow> event list \<times> error option" where
  "run_check check_func check_arg =
     (case check_func of
        None \<Rightarrow> ([], None)
      | Some f \<Rightarrow> ([CheckFunc], f check_arg))"

text \<open>Lines 129 to 145, once both children run.\<close>

definition supervise ::
  "procs \<Rightarrow> ('a \<Rightarrow> error option) option \<Rightarrow> 'a \<Rightarrow> env \<Rightarrow> path \<Rightarrow> procs \<Rightarrow>
   event list \<times> unit result" where
  "supervise precursor_procs check_func check_arg ev tp ups =
     (case wait_precursors precursor_procs ups (polls ev) of
        (t1, Raises e) \<Rightarrow> (t1, Raises e)
      | (t1, Pending) \<Rightarrow> (t1, Pending)
      | (t1, Returns rest) \<Rightarrow>
          (case run_check check_func check_arg of
             (t2, Some e) \<Rightarrow> (t1 @ t2, Raises e)
           | (t2, None) \<Rightarrow>
               (case write_term ev of
                  Some e \<Rightarrow> (t1 @ t2 @ [WriteTerm tp], Raises e)
                | None \<Rightarrow>
                    (case wait_uploads ups rest of
                       (t3, r) \<Rightarrow> (t1 @ t2 @ [WriteTerm tp] @ t3, r)))))"

text \<open>The \<^verbatim>\<open>try\<close> suite, lines 114 to 145, with the locals as they stand when it ends.\<close>

definition try_body ::
  "procs \<Rightarrow> ('a \<Rightarrow> error option) option \<Rightarrow> 'a \<Rightarrow> env \<Rightarrow>
   locals \<times> event list \<times> unit result" where
  "try_body precursor_procs check_func check_arg ev =
     (case get_term_file (raid_mount ev) (tmp_names ev) (fs0 ev) of
        Inl e \<Rightarrow> (\<lparr>term_path = None, upload_procs = []\<rparr>, [GetTermFile], Raises e)
      | Inr (tp, fs1) \<Rightarrow>
          (case spawn ev of
             (ups, t0, Some e) \<Rightarrow>
               (\<lparr>term_path = Some tp, upload_procs = ups\<rparr>, GetTermFile # t0, Raises e)
           | (ups, t0, None) \<Rightarrow>
               (case supervise precursor_procs check_func check_arg ev tp ups of
                  (t1, r) \<Rightarrow>
                    (\<lparr>term_path = Some tp, upload_procs = ups\<rparr>,
                     GetTermFile # t0 @ t1, r))))"

text \<open>
  One of the two guarded kills of the \<^verbatim>\<open>except\<close> clause, lines 150 to 162. The last
  argument and the second component are the exception a bare \<^verbatim>\<open>raise\<close> would re-raise.
  In Python 2 that is the last exception that was active in the scope, and handling an
  exception means executing or having executed an except clause, so a kill error that
  \<^verbatim>\<open>except: pass\<close> swallows takes the place of the one that brought control here.
\<close>

definition kill_if_exists ::
  "world \<Rightarrow> procs \<Rightarrow> string \<Rightarrow> error \<Rightarrow> event list \<times> error" where
  "kill_if_exists w ups name cur =
     (case map_of ups name of
        None \<Rightarrow> ([], cur)
      | Some p \<Rightarrow>
          if pid_exists w p then
            (case kill w p of
               Inl e \<Rightarrow> ([PidExists p, Kill p], e)
             | Inr u \<Rightarrow> ([PidExists p, Kill p], cur))
          else ([PidExists p], cur))"

definition except_clause :: "world \<Rightarrow> procs \<Rightarrow> error \<Rightarrow> event list \<times> error" where
  "except_clause w ups e =
     (case kill_if_exists w ups ''uploader'' e of
        (t1, c1) \<Rightarrow>
          (case kill_if_exists w ups ''repeater'' c1 of
             (t2, c2) \<Rightarrow> (t1 @ t2, c2)))"

text \<open>
  The \<^verbatim>\<open>finally\<close> clause, line 165. \<^verbatim>\<open>term_path\<close> is unbound when \<^verbatim>\<open>get_term_file\<close>
  raised; an exception raised here replaces the one in flight.
\<close>

definition finally_clause ::
  "env \<Rightarrow> locals \<Rightarrow> unit result \<Rightarrow> event list \<times> unit result" where
  "finally_clause ev l r =
     (case term_path l of
        None \<Rightarrow> ([], Raises (UnboundLocalError ''term_path''))
      | Some tp \<Rightarrow>
          ([Remove tp],
           (case remove_fault ev of
              Some e \<Rightarrow> Raises e
            | None \<Rightarrow> r)))"

definition safe_upload ::
  "procs \<Rightarrow> ('a \<Rightarrow> error option) option \<Rightarrow> 'a \<Rightarrow> env \<Rightarrow> event list \<times> unit result" where
  "safe_upload precursor_procs check_func check_arg ev =
     (case try_body precursor_procs check_func check_arg ev of
        (l, tr, Pending) \<Rightarrow> (tr, Pending)
      | (l, tr, Returns u) \<Rightarrow>
          (case finally_clause ev l (Returns ()) of
             (tf, r) \<Rightarrow> (tr @ tf, r))
      | (l, tr, Raises e) \<Rightarrow>
          (case except_clause (procs_world ev) (upload_procs l) e of
             (te, e') \<Rightarrow>
               (case finally_clause ev l (Raises e') of
                  (tf, r) \<Rightarrow> (tr @ te @ tf, r))))"

subsection \<open>An environment for worked runs\<close>

text \<open>
  A mount \<^verbatim>\<open>/raid0\<close> without a termination directory, one candidate name, children
  with pids 101 and 102 that exist and can be killed, and nothing that fails. The runs
  below update \<open>polls\<close> and the faults.
\<close>

definition example_env :: env where
  "example_env =
     \<lparr>raid_mount = [''raid0''], tmp_names = [''aaa''],
      fs0 = \<lparr>dirs = [[], [''raid0'']], files = Map.empty\<rparr>,
      popen_repeater = Inr 101, popen_uploader = Inr 102,
      polls = [], write_term = None,
      procs_world = \<lparr>pid_exists = (\<lambda>p. True), kill_fault = (\<lambda>p. None)\<rparr>,
      remove_fault = None\<rparr>"


definition dump_exited_2 :: snapshot where
  "dump_exited_2 p = (if p = 7 then ExitCode 2 else NotExited)"


section \<open>Facts about the relay\<close>

lemma consumed_append: "consumed (a @ b) = consumed a @ consumed b"
  by (induction a rule: consumed.induct) simp_all

lemma emitted_append: "emitted (a @ b) = emitted a @ emitted b"
  by (induction a rule: emitted.induct) simp_all

lemma iteration_running:
  "snd (iteration p t) = Running \<longleftrightarrow>
     stdout_fault t = None \<and> (stdin_read t = [] \<longrightarrow> \<not> signaled p t)"
  by (auto simp: iteration_def signaled_def check_term_file_def Let_def
      split: option.splits)

lemma iteration_exited:
  "snd (iteration p t) = Exited n \<longleftrightarrow>
     n = 0 \<and> stdin_read t = [] \<and> stdout_fault t = None \<and> signaled p t"
  by (auto simp: iteration_def signaled_def check_term_file_def Let_def
      split: option.splits)

lemma iteration_uncaught:
  "snd (iteration p t) = Uncaught e \<longleftrightarrow> stdout_fault t = Some e"
  by (auto simp: iteration_def signaled_def check_term_file_def Let_def
      split: option.splits)

lemma iteration_bytes:
  "consumed (fst (iteration p t)) = stdin_read t"
  "stdout_fault t = None \<Longrightarrow> emitted (fst (iteration p t)) = stdin_read t"
  by (auto simp: iteration_def check_term_file_def Let_def split: option.splits)

lemma main_Cons_running:
  "snd (iteration p t) = Running \<Longrightarrow>
   main p (t # ts) = (fst (iteration p t) @ fst (main p ts), snd (main p ts))"
  by (cases "iteration p t") (auto split: prod.splits)

lemma main_Cons_stop:
  "snd (iteration p t) \<noteq> Running \<Longrightarrow> main p (t # ts) = iteration p t"
  by (cases "iteration p t") (auto split: prod.splits outcome.splits)


lemma main_exited_iff:
  "snd (main p ts) = Exited n \<longleftrightarrow>
     n = 0 \<and> (\<exists>pre t post. ts = pre @ t # post \<and>
        (\<forall>u\<in>set pre. snd (iteration p u) = Running) \<and>
        stdin_read t = [] \<and> stdout_fault t = None \<and> signaled p t)"
proof (induction ts)
  case Nil
  then show ?case by simp
next
  case (Cons a ts)
  show ?case
  proof (cases "snd (iteration p a) = Running")
    case True
    have "snd (main p (a # ts)) = snd (main p ts)"
      using True by (simp add: main_Cons_running del: main.simps)
    moreover have "(\<exists>pre t post. a # ts = pre @ t # post \<and>
        (\<forall>u\<in>set pre. snd (iteration p u) = Running) \<and>
        stdin_read t = [] \<and> stdout_fault t = None \<and> signaled p t) \<longleftrightarrow>
      (\<exists>pre t post. ts = pre @ t # post \<and>
        (\<forall>u\<in>set pre. snd (iteration p u) = Running) \<and>
        stdin_read t = [] \<and> stdout_fault t = None \<and> signaled p t)" (is "?L \<longleftrightarrow> ?R")
    proof
      assume ?L
      then obtain pre t post where h: "a # ts = pre @ t # post"
        "\<forall>u\<in>set pre. snd (iteration p u) = Running"
        "stdin_read t = []" "stdout_fault t = None" "signaled p t" by blast
      show ?R
      proof (cases pre)
        case Nil
        with h True show ?thesis by (simp add: iteration_running)
      next
        case (Cons b pre')
        with h show ?thesis by auto
      qed
    next
      assume ?R
      then obtain pre t post where h: "ts = pre @ t # post"
        "\<forall>u\<in>set pre. snd (iteration p u) = Running"
        "stdin_read t = []" "stdout_fault t = None" "signaled p t" by blast
      have "a # ts = (a # pre) @ t # post" using h by simp
      moreover have "\<forall>u\<in>set (a # pre). snd (iteration p u) = Running"
        using h True by simp
      ultimately show ?L using h by blast
    qed
    ultimately show ?thesis using Cons.IH by simp
  next
    case False
    have m: "main p (a # ts) = iteration p a"
      using False by (rule main_Cons_stop)
    show ?thesis
    proof
      assume "snd (main p (a # ts)) = Exited n"
      then have "snd (iteration p a) = Exited n" using m by simp
      then have "n = 0 \<and> stdin_read a = [] \<and> stdout_fault a = None \<and> signaled p a"
        by (simp add: iteration_exited)
      moreover have "a # ts = [] @ a # ts" by simp
      ultimately show "n = 0 \<and> (\<exists>pre t post. a # ts = pre @ t # post \<and>
        (\<forall>u\<in>set pre. snd (iteration p u) = Running) \<and>
        stdin_read t = [] \<and> stdout_fault t = None \<and> signaled p t)"
        by (metis empty_iff list.set(1))
    next
      assume r: "n = 0 \<and> (\<exists>pre t post. a # ts = pre @ t # post \<and>
        (\<forall>u\<in>set pre. snd (iteration p u) = Running) \<and>
        stdin_read t = [] \<and> stdout_fault t = None \<and> signaled p t)"
      then obtain pre t post where h: "a # ts = pre @ t # post"
        "\<forall>u\<in>set pre. snd (iteration p u) = Running"
        "stdin_read t = []" "stdout_fault t = None" "signaled p t" by blast
      have "pre = []"
      proof (cases pre)
        case Nil then show ?thesis .
      next
        case (Cons b pre')
        with h have "b = a" by simp
        with h Cons False show ?thesis by simp
      qed
      with h have "t = a" by simp
      with h r have "snd (iteration p a) = Exited n" by (simp add: iteration_exited)
      with m show "snd (main p (a # ts)) = Exited n" by simp
    qed
  qed
qed

lemma main_bytes:
  "main p ts = (tr, oc) \<Longrightarrow> \<forall>e. oc \<noteq> Uncaught e \<Longrightarrow> emitted tr = consumed tr"
proof (induction ts arbitrary: tr oc)
  case Nil
  then show ?case by simp
next
  case (Cons a ts)
  show ?case
  proof (cases "snd (iteration p a) = Running")
    case True
    then have f: "stdout_fault a = None" by (simp add: iteration_running)
    obtain tr' oc' where m: "main p ts = (tr', oc')" by (cases "main p ts")
    have "main p (a # ts) = (fst (iteration p a) @ tr', oc')"
      using True m by (simp add: main_Cons_running del: main.simps)
    with Cons.prems have e: "tr = fst (iteration p a) @ tr'" "oc = oc'" by simp_all
    have "emitted tr' = consumed tr'" using Cons.IH[OF m] Cons.prems e by simp
    then show ?thesis using e f by (simp add: emitted_append consumed_append iteration_bytes)
  next
    case False
    have m: "main p (a # ts) = iteration p a" using False by (rule main_Cons_stop)
    with Cons.prems have e: "iteration p a = (tr, oc)" by simp
    have "stdout_fault a = None"
    proof (cases "stdout_fault a")
      case None then show ?thesis .
    next
      case (Some x)
      then have "snd (iteration p a) = Uncaught x" by (simp add: iteration_uncaught)
      with e Cons.prems(2) show ?thesis by simp
    qed
    moreover have "tr = fst (iteration p a)" using e by simp
    ultimately show ?thesis by (simp add: iteration_bytes)
  qed
qed

lemma main_unsignaled:
  "\<forall>t\<in>set ts. stdout_fault t = None \<and> \<not> signaled p t \<Longrightarrow>
   snd (main p ts) = Running \<and> emitted (fst (main p ts)) = concat (map stdin_read ts)"
proof (induction ts)
  case Nil
  then show ?case by simp
next
  case (Cons a ts)
  then have r: "snd (iteration p a) = Running" by (simp add: iteration_running)
  show ?case using Cons r
    by (simp add: main_Cons_running emitted_append iteration_bytes del: main.simps)
qed

lemma length_TERM_STRING: "length TERM_STRING = 11"
  by (simp add: TERM_STRING_def)

lemma check_term_file_True:
  "(check_term_file fs p = Inr True) = (\<exists>c. fs p = Some c \<and> take 11 c = ''TIME_TO_DIE'')"
  unfolding check_term_file_def length_TERM_STRING Let_def
  by (auto simp: TERM_STRING_def split: option.splits)

lemma signaled_iff:
  "signaled p t = (\<exists>c. files_now t p = Some c \<and> take 11 c = ''TIME_TO_DIE'')"
  unfolding signaled_def length_TERM_STRING
  by (auto simp: TERM_STRING_def split: option.splits)

text \<open>
  Claim C2, as the code has it. The check reads the first \<open>length TERM_STRING = 11\<close>
  characters of the token and compares them with the magic string, so it is a prefix
  match: a token longer than the magic string that begins with it counts as signaled.
  Here a token holding \<^verbatim>\<open>TIME_TO_DIE_NOT_YET\<close> makes the check answer true and the
  relay exit with status 0, against the claim that longer content is treated as not
  yet signaled.
\<close>

theorem longer_token_counterexample:
  "check_term_file [[''tok''] \<mapsto> ''TIME_TO_DIE_NOT_YET''] [''tok''] = Inr True \<and>
   ''TIME_TO_DIE_NOT_YET'' \<noteq> TERM_STRING \<and>
   snd (main [''tok'']
          [\<lparr>stdin_read = [], stdout_fault = None,
            files_now = [[''tok''] \<mapsto> ''TIME_TO_DIE_NOT_YET'']\<rparr>]) = Exited 0"
  by (simp add: check_term_file_def TERM_STRING_def iteration_def Let_def)

text \<open>
  Claim C2, amended. The termination check answers true exactly when the token file
  exists and its first 11 characters are \<^verbatim>\<open>TIME_TO_DIE\<close>; content shorter than 11
  characters is never a signal, content that starts with the magic string always is,
  whatever follows. The relay exits, and then with status 0, exactly when some iteration
  reads nothing, writes its probe without a fault and finds such a token, all earlier
  iterations having gone round; while no tick shows such a token it never exits,
  however many empty reads there are.
\<close>

theorem term_check_is_prefix_match:
  "(check_term_file fs p = Inr True) = (\<exists>c. fs p = Some c \<and> take 11 c = ''TIME_TO_DIE'') \<and>
   (\<forall>c. fs p = Some c \<and> length c < 11 \<longrightarrow> check_term_file fs p = Inr False) \<and>
   (\<forall>x. fs p = Some (''TIME_TO_DIE'' @ x) \<longrightarrow> check_term_file fs p = Inr True) \<and>
   signaled p t = (\<exists>c. files_now t p = Some c \<and> take 11 c = ''TIME_TO_DIE'') \<and>
   (snd (main p ts) = Exited n) =
     (n = 0 \<and> (\<exists>pre u post. ts = pre @ u # post \<and>
        (\<forall>v\<in>set pre. snd (iteration p v) = Running) \<and>
        stdin_read u = [] \<and> stdout_fault u = None \<and> signaled p u)) \<and>
   ((\<forall>u\<in>set ts. \<not> signaled p u) \<longrightarrow> (\<forall>k. snd (main p ts) \<noteq> Exited k))"
proof -
  have a: "\<forall>c. fs p = Some c \<and> length c < 11 \<longrightarrow> check_term_file fs p = Inr False"
    by (auto simp: check_term_file_def TERM_STRING_def Let_def)
  have b: "\<forall>x. fs p = Some (''TIME_TO_DIE'' @ x) \<longrightarrow> check_term_file fs p = Inr True"
    by (auto simp: check_term_file_def TERM_STRING_def Let_def)
  have c: "(\<forall>u\<in>set ts. \<not> signaled p u) \<longrightarrow> (\<forall>k. snd (main p ts) \<noteq> Exited k)"
  proof (intro impI allI notI)
    fix k assume h: "\<forall>u\<in>set ts. \<not> signaled p u" and "snd (main p ts) = Exited k"
    then obtain pre u post where "ts = pre @ u # post" "signaled p u"
      unfolding main_exited_iff by blast
    with h show False by auto
  qed
  show ?thesis
    using a b c check_term_file_True[of fs p] signaled_iff[of p t] main_exited_iff[of p ts n]
    by blast
qed

theorem term_check_is_prefix_match_witness:
  "check_term_file [[''tok''] \<mapsto> ''TIME_TO_DI''] [''tok''] = Inr False \<and>
   check_term_file [[''tok''] \<mapsto> ''TIME_TO_DIE''] [''tok''] = Inr True \<and>
   snd (main [''tok'']
     [\<lparr>stdin_read = [], stdout_fault = None, files_now = [[''tok''] \<mapsto> ''TIME_TO_DI'']\<rparr>,
      \<lparr>stdin_read = [], stdout_fault = None, files_now = [[''tok''] \<mapsto> ''TIME_TO_DI'']\<rparr>,
      \<lparr>stdin_read = [], stdout_fault = None, files_now = [[''tok''] \<mapsto> ''TIME_TO_DI'']\<rparr>])
     \<noteq> Exited 0"
  using term_check_is_prefix_match[of "[[''tok''] \<mapsto> ''TIME_TO_DI'']" "[''tok'']"
      "\<lparr>stdin_read = [], stdout_fault = None, files_now = [[''tok''] \<mapsto> ''TIME_TO_DI'']\<rparr>"
      "[\<lparr>stdin_read = [], stdout_fault = None, files_now = [[''tok''] \<mapsto> ''TIME_TO_DI'']\<rparr>,
      \<lparr>stdin_read = [], stdout_fault = None, files_now = [[''tok''] \<mapsto> ''TIME_TO_DI'']\<rparr>,
      \<lparr>stdin_read = [], stdout_fault = None, files_now = [[''tok''] \<mapsto> ''TIME_TO_DI'']\<rparr>]" 0]
  by (simp add: check_term_file_def TERM_STRING_def iteration_def Let_def)

text \<open>
  Claim C4. Whenever the relay has not died of an exception, the bytes it has written
  are the bytes it has read, in order. While standard output does not fault and the
  token is not signaled, the relay keeps running over any sequence of reads, empty ones
  included, and has written the concatenation of everything read.
\<close>

theorem relay_byte_exact:
  "(main p ts = (tr, oc) \<and> (\<forall>e. oc \<noteq> Uncaught e) \<longrightarrow> emitted tr = consumed tr) \<and>
   ((\<forall>u\<in>set ts. stdout_fault u = None \<and> \<not> signaled p u) \<longrightarrow>
      snd (main p ts) = Running \<and>
      emitted (fst (main p ts)) = concat (map stdin_read ts)) \<and>
   (stdin_read t = [] \<and> stdout_fault t = None \<and> \<not> signaled p t \<longrightarrow>
      snd (iteration p t) = Running)"
  using main_bytes[of p ts tr oc] main_unsignaled[of ts p] iteration_running[of p t]
  by blast

theorem relay_byte_exact_witness:
  "emitted (fst (main [''tok'']
     [\<lparr>stdin_read = ''ab'', stdout_fault = None, files_now = Map.empty\<rparr>,
      \<lparr>stdin_read = [], stdout_fault = None, files_now = Map.empty\<rparr>,
      \<lparr>stdin_read = ''cd'', stdout_fault = None, files_now = Map.empty\<rparr>,
      \<lparr>stdin_read = [], stdout_fault = None, files_now = [[''tok''] \<mapsto> ''TIME_TO_DIE'']\<rparr>]))
     = ''abcd'' \<and>
   consumed (fst (main [''tok'']
     [\<lparr>stdin_read = ''ab'', stdout_fault = None, files_now = Map.empty\<rparr>,
      \<lparr>stdin_read = [], stdout_fault = None, files_now = Map.empty\<rparr>,
      \<lparr>stdin_read = ''cd'', stdout_fault = None, files_now = Map.empty\<rparr>,
      \<lparr>stdin_read = [], stdout_fault = None, files_now = [[''tok''] \<mapsto> ''TIME_TO_DIE'']\<rparr>]))
     = ''abcd'' \<and>
   snd (main [''tok'']
     [\<lparr>stdin_read = ''ab'', stdout_fault = None, files_now = Map.empty\<rparr>,
      \<lparr>stdin_read = [], stdout_fault = None, files_now = Map.empty\<rparr>]) = Running"
  using relay_byte_exact[of "[''tok'']"
     "[\<lparr>stdin_read = ''ab'', stdout_fault = None, files_now = Map.empty\<rparr>,
      \<lparr>stdin_read = [], stdout_fault = None, files_now = Map.empty\<rparr>]" "[]" Running
      "\<lparr>stdin_read = [], stdout_fault = None, files_now = Map.empty\<rparr>"]
  by (simp add: check_term_file_def TERM_STRING_def iteration_def Let_def signaled_def)



section \<open>Facts about \<^verbatim>\<open>kill_precursor_procs\<close>\<close>

lemma except_pass_Inr: "except_pass r = Inr ()"
  by (cases r) (simp_all add: except_pass_def)

lemma kpp_Cons:
  "kill_precursor_procs ((n, h) # procs) w =
     ((case h of None \<Rightarrow> []
       | Some p \<Rightarrow> if pid_exists w p then [PidExists p, Kill p] else [PidExists p])
        @ fst (kill_precursor_procs procs w),
      snd (kill_precursor_procs procs w))"
  by (cases "kill_precursor_procs procs w")
     (simp add: except_pass_Inr split: option.splits)

lemma kpp_total: "snd (kill_precursor_procs procs w) = Inr ()"
  by (induction procs) (auto simp: kpp_Cons simp del: kill_precursor_procs.simps(2))

lemma kpp_filter:
  "kill_precursor_procs (filter (\<lambda>(n, h). h \<noteq> None) procs) w = kill_precursor_procs procs w"
  by (induction procs) (auto simp: kpp_Cons simp del: kill_precursor_procs.simps(2))

lemma kpp_kill_iff:
  "Kill p \<in> set (fst (kill_precursor_procs procs w)) \<longleftrightarrow>
     pid_exists w p \<and> (\<exists>n. (n, Some p) \<in> set procs)"
  by (induction procs)
     (auto simp: kpp_Cons simp del: kill_precursor_procs.simps(2) split: option.splits if_splits)

lemma kpp_exists_iff:
  "PidExists p \<in> set (fst (kill_precursor_procs procs w)) \<longleftrightarrow>
     (\<exists>n. (n, Some p) \<in> set procs)"
  by (induction procs)
     (auto simp: kpp_Cons simp del: kill_precursor_procs.simps(2) split: option.splits if_splits)

lemma kpp_events:
  "e \<in> set (fst (kill_precursor_procs procs w)) \<Longrightarrow>
     \<exists>n p. (n, Some p) \<in> set procs \<and> (e = PidExists p \<or> e = Kill p)"
proof (induction procs)
  case Nil
  then show ?case by simp
next
  case (Cons a procs)
  obtain n h where a: "a = (n, h)" by (cases a)
  show ?case
  proof (cases "e \<in> set (fst (kill_precursor_procs procs w))")
    case True
    then show ?thesis using Cons.IH by auto
  next
    case False
    with Cons.prems a obtain p where "h = Some p" "e = PidExists p \<or> e = Kill p"
      by (auto simp: kpp_Cons simp del: kill_precursor_procs.simps(2)
          split: option.splits if_splits)
    with a show ?thesis by auto
  qed
qed


text \<open>
  Claim C8. \<^verbatim>\<open>kill_precursor_procs\<close> never raises, in any process world: every handle
  whose pid exists gets a kill, a kill that raises is swallowed, only existing pids are
  killed, and on a group none of whose processes exists two calls in a row both return
  normally and kill nothing.
\<close>

theorem kill_precursor_procs_never_raises:
  "snd (kill_precursor_procs procs w) = Inr () \<and>
   (\<forall>n p. (n, Some p) \<in> set procs \<and> pid_exists w p \<longrightarrow>
      Kill p \<in> set (fst (kill_precursor_procs procs w))) \<and>
   (\<forall>n p e. (n, Some p) \<in> set procs \<and> pid_exists w p \<and> kill_fault w p = Some e \<longrightarrow>
      kill w p = Inl e \<and> snd (kill_precursor_procs procs w) = Inr ()) \<and>
   (\<forall>p. Kill p \<in> set (fst (kill_precursor_procs procs w)) \<longrightarrow> pid_exists w p) \<and>
   ((\<forall>n p. (n, Some p) \<in> set procs \<longrightarrow> \<not> pid_exists w p \<and> \<not> pid_exists w' p) \<longrightarrow>
      snd (kill_precursor_procs procs w) = Inr () \<and>
      snd (kill_precursor_procs procs w') = Inr () \<and>
      (\<forall>p. Kill p \<notin> set (fst (kill_precursor_procs procs w)) \<and>
           Kill p \<notin> set (fst (kill_precursor_procs procs w'))))"
  by (auto simp: kpp_total kpp_kill_iff kill_def)

theorem kill_precursor_procs_never_raises_witness:
  "kill_precursor_procs [(''dump'', Some 7), (''pv'', Some 8), (''gzip'', Some 9)]
     \<lparr>pid_exists = (\<lambda>p. p = 7 \<or> p = 9),
      kill_fault = (\<lambda>p. if p = 7 then Some (OSError ''No such process'') else None)\<rparr>
   = ([PidExists 7, Kill 7, PidExists 8, PidExists 9, Kill 9], Inr ()) \<and>
   kill \<lparr>pid_exists = (\<lambda>p. p = 7 \<or> p = 9),
      kill_fault = (\<lambda>p. if p = 7 then Some (OSError ''No such process'') else None)\<rparr> 7
   = Inl (OSError ''No such process'') \<and>
   kill_precursor_procs [(''dump'', Some 7), (''pv'', Some 8), (''gzip'', Some 9)]
     \<lparr>pid_exists = (\<lambda>p. False), kill_fault = (\<lambda>p. Some (OSError ''No such process''))\<rparr>
   = ([PidExists 7, PidExists 8, PidExists 9], Inr ())"
  using kill_precursor_procs_never_raises[of
     "[(''dump'', Some 7), (''pv'', Some 8), (''gzip'', Some 9)]"
     "\<lparr>pid_exists = (\<lambda>p. p = 7 \<or> p = 9),
      kill_fault = (\<lambda>p. if p = 7 then Some (OSError ''No such process'') else None)\<rparr>"
     "\<lparr>pid_exists = (\<lambda>p. False), kill_fault = (\<lambda>p. Some (OSError ''No such process''))\<rparr>"]
  by (simp add: kill_def except_pass_def)

text \<open>
  Claim C10. An entry whose handle is falsy contributes nothing: the call behaves as on
  the dict without such entries, every event of the trace concerns the pid of a real
  handle, a dict of placeholders only gives the empty trace, and the call returns
  normally.
\<close>

theorem falsy_handles_are_skipped:
  "kill_precursor_procs ((n, None) # procs) w = kill_precursor_procs procs w \<and>
   kill_precursor_procs (filter (\<lambda>(n, h). h \<noteq> None) procs) w =
     kill_precursor_procs procs w \<and>
   (\<forall>e\<in>set (fst (kill_precursor_procs procs w)).
      \<exists>n p. (n, Some p) \<in> set procs \<and> (e = PidExists p \<or> e = Kill p)) \<and>
   ((\<forall>(n, h)\<in>set procs. h = None) \<longrightarrow> kill_precursor_procs procs w = ([], Inr ())) \<and>
   snd (kill_precursor_procs procs w) = Inr ()"
proof -
  have "(\<forall>(n, h)\<in>set procs. h = None) \<longrightarrow> kill_precursor_procs procs w = ([], Inr ())"
    by (induction procs) auto
  then show ?thesis
    using kpp_filter[of procs w] kpp_events[of _ procs w] kpp_total[of procs w]
    by auto
qed

theorem falsy_handles_are_skipped_witness:
  "kill_precursor_procs [(''dump'', None), (''pv'', Some 8), (''gzip'', None)]
     \<lparr>pid_exists = (\<lambda>p. True), kill_fault = (\<lambda>p. None)\<rparr>
   = ([PidExists 8, Kill 8], Inr ()) \<and>
   kill_precursor_procs [(''dump'', None), (''gzip'', None)]
     \<lparr>pid_exists = (\<lambda>p. True), kill_fault = (\<lambda>p. None)\<rparr>
   = ([], Inr ())"
  using falsy_handles_are_skipped[of "''dump''" "[(''pv'', Some 8), (''gzip'', None)]"
     "\<lparr>pid_exists = (\<lambda>p. True), kill_fault = (\<lambda>p. None)\<rparr>"]
  by (simp add: kill_def except_pass_def)

section \<open>Facts about token creation\<close>

lemma mkstemp_Inr:
  "mkstemp names d fs = Inr (p, fs') \<Longrightarrow>
     d \<in> set (dirs fs) \<and> \<not> path_exists fs p \<and> (\<exists>n\<in>set names. p = d @ [''tmp'' @ n]) \<and>
     fs' = fs\<lparr>files := (files fs)(p \<mapsto> [])\<rparr>"
  by (induction names) (auto simp: Let_def split: if_splits)

lemma mkstemp_succeeds:
  "d \<in> set (dirs fs) \<Longrightarrow> \<exists>n\<in>set names. \<not> path_exists fs (d @ [''tmp'' @ n]) \<Longrightarrow>
     \<exists>p fs'. mkstemp names d fs = Inr (p, fs')"
  by (induction names) (auto simp: Let_def)

lemma get_term_dir_Inr:
  "get_term_dir rm fs = Inr (d, fs1) \<Longrightarrow>
     d = rm @ [TERM_DIR] \<and>
     (path_exists fs d \<and> fs1 = fs \<or>
      \<not> path_exists fs d \<and> rm \<in> set (dirs fs) \<and> fs1 = fs\<lparr>dirs := d # dirs fs\<rparr>)"
  by (auto simp: get_term_dir_def mkdir_def Let_def split: if_splits)

lemma get_term_dir_files:
  "get_term_dir rm fs = Inr (d, fs1) \<Longrightarrow> files fs1 = files fs"
  by (drule get_term_dir_Inr) auto

lemma get_term_dir_dirs:
  "get_term_dir rm fs = Inr (d, fs1) \<Longrightarrow>
     set (dirs fs1) = set (dirs fs) \<or> set (dirs fs1) = insert d (set (dirs fs))"
  by (drule get_term_dir_Inr) auto

lemma snoc_neq_self: "d @ [x] \<noteq> d"
  by simp

lemma get_term_dir_fresh:
  assumes "get_term_dir rm fs = Inr (d, fs1)"
  shows "path_exists fs1 (d @ [x]) = path_exists fs (d @ [x])"
proof -
  have "files fs1 = files fs" using assms by (rule get_term_dir_files)
  moreover have "(d @ [x] \<in> set (dirs fs1)) = (d @ [x] \<in> set (dirs fs))"
    using get_term_dir_dirs[OF assms] by auto
  ultimately show ?thesis by (simp add: path_exists_def)
qed

lemma get_term_file_Inr:
  assumes "get_term_file rm names fs = Inr (p, fs')"
  shows "butlast p = rm @ [TERM_DIR] \<and> rm @ [TERM_DIR] \<in> set (dirs fs') \<and>
         \<not> path_exists fs p \<and> files fs' = (files fs)(p \<mapsto> []) \<and>
         (\<exists>n\<in>set names. p = rm @ [TERM_DIR, ''tmp'' @ n])"
proof -
  from assms obtain d fs1 where g: "get_term_dir rm fs = Inr (d, fs1)"
      and m: "mkstemp names d fs1 = Inr (p, fs')"
    by (auto simp: get_term_file_def split: sum.splits)
  have d: "d = rm @ [TERM_DIR]" using get_term_dir_Inr[OF g] by simp
  note b = mkstemp_Inr[OF m]
  from b obtain n where n: "n \<in> set names" "p = d @ [''tmp'' @ n]" by blast
  have "\<not> path_exists fs p" using b n get_term_dir_fresh[OF g] by simp
  moreover have "butlast p = rm @ [TERM_DIR]" using n d by (simp add: butlast_append)
  moreover have "rm @ [TERM_DIR] \<in> set (dirs fs')" using b d by simp
  moreover have "files fs' = (files fs)(p \<mapsto> [])"
    using b get_term_dir_files[OF g] by simp
  moreover have "\<exists>n\<in>set names. p = rm @ [TERM_DIR, ''tmp'' @ n]" using n d by auto
  ultimately show ?thesis by blast
qed

lemma get_term_file_succeeds:
  assumes "rm \<in> set (dirs fs)" "files fs (rm @ [TERM_DIR]) = None"
    "\<exists>n\<in>set names. \<not> path_exists fs (rm @ [TERM_DIR, ''tmp'' @ n])"
  shows "\<exists>p fs'. get_term_file rm names fs = Inr (p, fs')"
proof -
  have "\<exists>d fs1. get_term_dir rm fs = Inr (d, fs1)"
    using assms(1) by (simp add: get_term_dir_def mkdir_def Let_def)
  then obtain d fs1 where g: "get_term_dir rm fs = Inr (d, fs1)" by blast
  have d: "d = rm @ [TERM_DIR]" using get_term_dir_Inr[OF g] by simp
  have dd: "d \<in> set (dirs fs1)"
    using get_term_dir_Inr[OF g] assms(2) by (auto simp: path_exists_def)
  from assms(3) obtain n where n: "n \<in> set names"
    "\<not> path_exists fs (rm @ [TERM_DIR, ''tmp'' @ n])" by blast
  have "\<not> path_exists fs1 (d @ [''tmp'' @ n])"
    using n(2) d get_term_dir_fresh[OF g, of "''tmp'' @ n"] by simp
  with n(1) have "\<exists>n\<in>set names. \<not> path_exists fs1 (d @ [''tmp'' @ n])" by blast
  with dd have "\<exists>p fs'. mkstemp names d fs1 = Inr (p, fs')" by (rule mkstemp_succeeds)
  then show ?thesis using g by (simp add: get_term_file_def)
qed


text \<open>
  Claim C9. A path \<^verbatim>\<open>get_term_file\<close> returns lies directly in the termination
  directory, which exists afterwards; the path did not exist before the call and is an
  empty file after it; and a token created in any file system in which this one still
  exists has a different path. The call does return a path when the mount is a
  directory, the termination directory is not a regular file and one candidate name is
  free.
\<close>

theorem get_term_file_fresh_and_unique:
  "(get_term_file rm names fs = Inr (p, fs') \<longrightarrow>
      butlast p = rm @ [TERM_DIR] \<and>
      rm @ [TERM_DIR] \<in> set (dirs fs') \<and>
      \<not> path_exists fs p \<and>
      files fs' = (files fs)(p \<mapsto> []) \<and>
      (\<forall>names2 fs2 p2 fs2'.
         path_exists fs2 p \<and> get_term_file rm names2 fs2 = Inr (p2, fs2') \<longrightarrow> p2 \<noteq> p)) \<and>
   (rm \<in> set (dirs fs) \<and> files fs (rm @ [TERM_DIR]) = None \<and>
    (\<exists>n\<in>set names. \<not> path_exists fs (rm @ [TERM_DIR, ''tmp'' @ n])) \<longrightarrow>
      (\<exists>q fs1. get_term_file rm names fs = Inr (q, fs1)))"
proof (intro conjI impI)
  assume g: "get_term_file rm names fs = Inr (p, fs')"
  note a = get_term_file_Inr[OF g]
  show "butlast p = rm @ [TERM_DIR]" "rm @ [TERM_DIR] \<in> set (dirs fs')"
    "\<not> path_exists fs p" "files fs' = (files fs)(p \<mapsto> [])"
    using a by simp_all
  show "\<forall>names2 fs2 p2 fs2'.
         path_exists fs2 p \<and> get_term_file rm names2 fs2 = Inr (p2, fs2') \<longrightarrow> p2 \<noteq> p"
  proof (intro allI impI notI)
    fix names2 fs2 p2 fs2'
    assume h: "path_exists fs2 p \<and> get_term_file rm names2 fs2 = Inr (p2, fs2')" and e: "p2 = p"
    from h have "\<not> path_exists fs2 p2" using get_term_file_Inr by blast
    with h e show False by simp
  qed
next
  assume "rm \<in> set (dirs fs) \<and> files fs (rm @ [TERM_DIR]) = None \<and>
    (\<exists>n\<in>set names. \<not> path_exists fs (rm @ [TERM_DIR, ''tmp'' @ n]))"
  then show "\<exists>q fs1. get_term_file rm names fs = Inr (q, fs1)"
    using get_term_file_succeeds by blast
qed

theorem get_term_file_fresh_and_unique_witness:
  "get_term_file [''raid0''] [''aaa'', ''bbb'']
     \<lparr>dirs = [[], [''raid0'']], files = Map.empty\<rparr>
   = Inr ([''raid0'', ''repeater_lock_dir'', ''tmpaaa''],
          \<lparr>dirs = [[''raid0'', ''repeater_lock_dir''], [], [''raid0'']],
           files = [[''raid0'', ''repeater_lock_dir'', ''tmpaaa''] \<mapsto> []]\<rparr>) \<and>
   get_term_file [''raid0''] [''aaa'', ''bbb'']
     \<lparr>dirs = [[''raid0'', ''repeater_lock_dir''], [], [''raid0'']],
      files = [[''raid0'', ''repeater_lock_dir'', ''tmpaaa''] \<mapsto> []]\<rparr>
   = Inr ([''raid0'', ''repeater_lock_dir'', ''tmpbbb''],
          \<lparr>dirs = [[''raid0'', ''repeater_lock_dir''], [], [''raid0'']],
           files = [[''raid0'', ''repeater_lock_dir'', ''tmpaaa''] \<mapsto> [],
                    [''raid0'', ''repeater_lock_dir'', ''tmpbbb''] \<mapsto> []]\<rparr>)"
  using get_term_file_fresh_and_unique[of "[''raid0'']" "[''aaa'', ''bbb'']"
     "\<lparr>dirs = [[], [''raid0'']], files = Map.empty\<rparr>"
     "[''raid0'', ''repeater_lock_dir'', ''tmpaaa'']"
     "\<lparr>dirs = [[''raid0'', ''repeater_lock_dir''], [], [''raid0'']],
           files = [[''raid0'', ''repeater_lock_dir'', ''tmpaaa''] \<mapsto> []]\<rparr>"]
  by (simp add: get_term_file_def get_term_dir_def mkdir_def path_exists_def TERM_DIR_def Let_def)

section \<open>Facts about the process monitor and the polling loops\<close>

lemma check_True_iff:
  "check_dict_of_procs ps s = Inr True \<longleftrightarrow> (\<forall>(n, p)\<in>set ps. s p = ExitCode 0)"
  by (induction ps s rule: check_dict_of_procs.induct)
     (auto split: proc_status.splits sum.splits)


lemma check_failed:
  "(n, p) \<in> set ps \<Longrightarrow> s p = ExitCode c \<Longrightarrow> c \<noteq> 0 \<Longrightarrow> \<exists>e. check_dict_of_procs ps s = Inl e"
  by (induction ps s rule: check_dict_of_procs.induct)
     (auto split: proc_status.splits sum.splits if_splits)

lemma check_False_no_failure:
  assumes "check_dict_of_procs ps s = Inr b" "(n, p) \<in> set ps" "s p = ExitCode c"
  shows "c = 0"
proof (rule ccontr)
  assume "c \<noteq> 0"
  then have "\<exists>e. check_dict_of_procs ps s = Inl e" using assms(2,3) by (intro check_failed)
  with assms(1) show False by simp
qed


lemma wait_precursors_Returns:
  "wait_precursors pre ups ss = (tr, Returns rest) \<Longrightarrow>
     \<exists>k. k < length ss \<and> rest = drop (Suc k) ss \<and>
         tr = concat (replicate k [CheckProcs Precursor, CheckProcs Upload, Sleep])
              @ [CheckProcs Precursor] \<and>
         check_dict_of_procs pre (ss ! k) = Inr True \<and>
         (\<forall>j<k. check_dict_of_procs pre (ss ! j) = Inr False)"
proof (induction ss arbitrary: tr)
  case Nil
  then show ?case by simp
next
  case (Cons s ss)
  show ?case
  proof (cases "check_dict_of_procs pre s")
    case (Inl e)
    with Cons.prems show ?thesis by simp
  next
    case (Inr b)
    show ?thesis
    proof (cases b)
      case True
      with Inr Cons.prems have "tr = [CheckProcs Precursor]" "rest = ss" by simp_all
      with Inr True show ?thesis by (intro exI[of _ 0]) simp
    next
      case False
      show ?thesis
      proof (cases "check_dict_of_procs ups s")
        case (Inl e)
        with Inr False Cons.prems show ?thesis by simp
      next
        case u: (Inr b')
        obtain tr' r' where w: "wait_precursors pre ups ss = (tr', r')"
          by (cases "wait_precursors pre ups ss")
        with Inr False u Cons.prems
        have e: "tr = [CheckProcs Precursor, CheckProcs Upload, Sleep] @ tr'" "r' = Returns rest"
          by simp_all
        from Cons.IH[OF w[unfolded e(2)]] obtain k where k: "k < length ss"
          "rest = drop (Suc k) ss"
          "tr' = concat (replicate k [CheckProcs Precursor, CheckProcs Upload, Sleep])
              @ [CheckProcs Precursor]"
          "check_dict_of_procs pre (ss ! k) = Inr True"
          "\<forall>j<k. check_dict_of_procs pre (ss ! j) = Inr False" by blast
        have "\<forall>j<Suc k. check_dict_of_procs pre ((s # ss) ! j) = Inr False"
          using k(5) Inr False by (auto simp: less_Suc_eq_0_disj)
        with k e show ?thesis by (intro exI[of _ "Suc k"]) simp
      qed
    qed
  qed
qed

lemma wait_precursors_events:
  "set (fst (wait_precursors pre ups ss)) \<subseteq> {CheckProcs Precursor, CheckProcs Upload, Sleep}"
  by (induction ss) (auto split: sum.splits bool.splits prod.splits)

lemma wait_uploads_events:
  "set (fst (wait_uploads ups ss)) \<subseteq> {CheckProcs Upload, Sleep}"
  by (induction ss) (auto split: sum.splits bool.splits prod.splits)

lemma run_check_cases:
  "run_check cf ca = ((case cf of None \<Rightarrow> [] | Some f \<Rightarrow> [CheckFunc]),
                      (case cf of None \<Rightarrow> None | Some f \<Rightarrow> f ca))"
  by (simp add: run_check_def split: option.splits)


section \<open>Facts about \<^verbatim>\<open>safe_upload\<close>\<close>

lemma spawn_cases:
  "spawn ev = (ups, t0, x) \<Longrightarrow>
     (\<exists>e. popen_repeater ev = Inl e \<and> ups = [] \<and> t0 = [Popen ''repeater''] \<and> x = Some e) \<or>
     (\<exists>r e. popen_repeater ev = Inr r \<and> popen_uploader ev = Inl e \<and>
        ups = [(''repeater'', r)] \<and> t0 = [Popen ''repeater'', Popen ''uploader''] \<and> x = Some e) \<or>
     (\<exists>r u. popen_repeater ev = Inr r \<and> popen_uploader ev = Inr u \<and>
        ups = [(''repeater'', r), (''uploader'', u)] \<and>
        t0 = [Popen ''repeater'', Popen ''uploader''] \<and> x = None)"
  by (auto simp: spawn_def split: sum.splits)

lemma spawn_events: "spawn ev = (ups, t0, x) \<Longrightarrow> set t0 \<subseteq> {Popen ''repeater'', Popen ''uploader''}"
  by (drule spawn_cases) auto

lemma supervise_cases:
  assumes "supervise pre cf ca ev tp ups = (t, r)"
  shows
    "(\<exists>t1. wait_precursors pre ups (polls ev) = (t1, Pending) \<and> t = t1 \<and> r = Pending) \<or>
     (\<exists>t1 e. wait_precursors pre ups (polls ev) = (t1, Raises e) \<and> t = t1 \<and> r = Raises e) \<or>
     (\<exists>t1 rest. wait_precursors pre ups (polls ev) = (t1, Returns rest) \<and>
        ((\<exists>f e. cf = Some f \<and> f ca = Some e \<and> t = t1 @ [CheckFunc] \<and> r = Raises e) \<or>
         ((\<forall>f. cf = Some f \<longrightarrow> f ca = None) \<and>
          ((\<exists>e. write_term ev = Some e \<and> r = Raises e \<and>
              t = t1 @ (case cf of None \<Rightarrow> [] | Some f \<Rightarrow> [CheckFunc]) @ [WriteTerm tp]) \<or>
           (write_term ev = None \<and> r = snd (wait_uploads ups rest) \<and>
              t = t1 @ (case cf of None \<Rightarrow> [] | Some f \<Rightarrow> [CheckFunc]) @ [WriteTerm tp]
                  @ fst (wait_uploads ups rest))))))"
proof -
  obtain t1 r1 where w: "wait_precursors pre ups (polls ev) = (t1, r1)"
    by (cases "wait_precursors pre ups (polls ev)")
  show ?thesis
  proof (cases r1)
    case (Returns rest)
    obtain t3 r3 where u: "wait_uploads ups rest = (t3, r3)" by (cases "wait_uploads ups rest")
    show ?thesis using assms w Returns u
      by (cases cf; cases "write_term ev")
         (auto simp: supervise_def run_check_def split: option.splits)
  next
    case (Raises e)
    then show ?thesis using assms w by (simp add: supervise_def)
  next
    case Pending
    then show ?thesis using assms w by (simp add: supervise_def)
  qed
qed

lemma supervise_events:
  assumes "supervise pre cf ca ev tp ups = (t, r)"
  shows "set t \<subseteq> {CheckProcs Precursor, CheckProcs Upload, Sleep, CheckFunc, WriteTerm tp}"
proof -
  have a: "\<And>t1 x. wait_precursors pre ups (polls ev) = (t1, x) \<Longrightarrow>
     set t1 \<subseteq> {CheckProcs Precursor, CheckProcs Upload, Sleep}"
    using wait_precursors_events[of pre ups "polls ev"] by simp
  have b: "\<And>rest. set (fst (wait_uploads ups rest)) \<subseteq> {CheckProcs Upload, Sleep}"
    by (rule wait_uploads_events)
  have c: "set (case cf of None \<Rightarrow> [] | Some f \<Rightarrow> [CheckFunc]) \<subseteq> {CheckFunc}"
    by (cases cf) auto
  from supervise_cases[OF assms] show ?thesis
  proof (elim disjE exE conjE)
    fix t1 assume "wait_precursors pre ups (polls ev) = (t1, Pending)" "t = t1"
    then show ?thesis using a by blast
  next
    fix t1 e assume "wait_precursors pre ups (polls ev) = (t1, Raises e)" "t = t1"
    then show ?thesis using a by blast
  next
    fix t1 rest f e
    assume "wait_precursors pre ups (polls ev) = (t1, Returns rest)" "t = t1 @ [CheckFunc]"
    then show ?thesis using a[of t1 "Returns rest"] by auto
  next
    fix t1 rest e
    assume "wait_precursors pre ups (polls ev) = (t1, Returns rest)"
      "t = t1 @ (case cf of None \<Rightarrow> [] | Some f \<Rightarrow> [CheckFunc]) @ [WriteTerm tp]"
    then show ?thesis using a[of t1 "Returns rest"] c by auto
  next
    fix t1 rest
    assume "wait_precursors pre ups (polls ev) = (t1, Returns rest)"
      "t = t1 @ (case cf of None \<Rightarrow> [] | Some f \<Rightarrow> [CheckFunc]) @ [WriteTerm tp]
                  @ fst (wait_uploads ups rest)"
    then show ?thesis using a[of t1 "Returns rest"] b[of rest] c by auto
  qed
qed

lemma try_body_cases:
  assumes "try_body pre cf ca ev = (l, t, r)"
  shows
    "(\<exists>e. get_term_file (raid_mount ev) (tmp_names ev) (fs0 ev) = Inl e \<and>
        l = \<lparr>term_path = None, upload_procs = []\<rparr> \<and> t = [GetTermFile] \<and> r = Raises e) \<or>
     (\<exists>tp fs1 ups t0 e.
        get_term_file (raid_mount ev) (tmp_names ev) (fs0 ev) = Inr (tp, fs1) \<and>
        spawn ev = (ups, t0, Some e) \<and>
        l = \<lparr>term_path = Some tp, upload_procs = ups\<rparr> \<and> t = GetTermFile # t0 \<and>
        r = Raises e) \<or>
     (\<exists>tp fs1 ups t0 t1.
        get_term_file (raid_mount ev) (tmp_names ev) (fs0 ev) = Inr (tp, fs1) \<and>
        spawn ev = (ups, t0, None) \<and>
        supervise pre cf ca ev tp ups = (t1, r) \<and>
        l = \<lparr>term_path = Some tp, upload_procs = ups\<rparr> \<and> t = GetTermFile # t0 @ t1)"
proof (cases "get_term_file (raid_mount ev) (tmp_names ev) (fs0 ev)")
  case (Inl e)
  with assms show ?thesis by (simp add: try_body_def)
next
  case (Inr x)
  obtain tp fs1 where x: "x = (tp, fs1)" by (cases x)
  obtain ups t0 y where s: "spawn ev = (ups, t0, y)" by (cases "spawn ev")
  show ?thesis
  proof (cases y)
    case None
    obtain t1 r1 where v: "supervise pre cf ca ev tp ups = (t1, r1)"
      by (cases "supervise pre cf ca ev tp ups")
    with assms Inr x s None show ?thesis by (simp add: try_body_def)
  next
    case (Some e)
    with assms Inr x s show ?thesis by (simp add: try_body_def)
  qed
qed

lemma try_body_term_path:
  assumes "try_body pre cf ca ev = (l, t, r)"
    "get_term_file (raid_mount ev) (tmp_names ev) (fs0 ev) = Inr (tp, fs1)"
  shows "term_path l = Some tp"
  using try_body_cases[OF assms(1)] assms(2) by auto

lemma try_body_events:
  assumes "try_body pre cf ca ev = (l, t, r)" "x \<in> set t"
  shows "x = GetTermFile \<or> x = Popen ''repeater'' \<or> x = Popen ''uploader'' \<or>
         x = CheckProcs Precursor \<or> x = CheckProcs Upload \<or> x = Sleep \<or> x = CheckFunc \<or>
         (\<exists>tp. term_path l = Some tp \<and> x = WriteTerm tp)"
  using try_body_cases[OF assms(1)]
proof (elim disjE exE conjE)
  fix e assume "t = [GetTermFile]"
  with assms(2) show ?thesis by simp
next
  fix tp fs1 ups t0 e
  assume "spawn ev = (ups, t0, Some e)" "t = GetTermFile # t0"
  with assms(2) spawn_events[of ev ups t0 "Some e"] show ?thesis by auto
next
  fix tp fs1 ups t0 t1
  assume h: "spawn ev = (ups, t0, None)" "supervise pre cf ca ev tp ups = (t1, r)"
    "l = \<lparr>term_path = Some tp, upload_procs = ups\<rparr>" "t = GetTermFile # t0 @ t1"
  from assms(2) h(4) consider "x = GetTermFile" | "x \<in> set t0" | "x \<in> set t1" by auto
  then show ?thesis
  proof cases
    case 1
    then show ?thesis by simp
  next
    case 2
    with spawn_events[OF h(1)] show ?thesis by auto
  next
    case 3
    with supervise_events[OF h(2)] h(3) show ?thesis by auto
  qed
qed

lemma kill_if_exists_events:
  "fst (kill_if_exists w ups name cur) =
     (case map_of ups name of
        None \<Rightarrow> []
      | Some p \<Rightarrow> if pid_exists w p then [PidExists p, Kill p] else [PidExists p])"
  by (simp add: kill_if_exists_def split: option.splits sum.splits)


lemma except_clause_events:
  "fst (except_clause w ups e) =
     (case map_of ups ''uploader'' of
        None \<Rightarrow> []
      | Some p \<Rightarrow> if pid_exists w p then [PidExists p, Kill p] else [PidExists p]) @
     (case map_of ups ''repeater'' of
        None \<Rightarrow> []
      | Some p \<Rightarrow> if pid_exists w p then [PidExists p, Kill p] else [PidExists p])"
proof -
  obtain t1 c1 where a: "kill_if_exists w ups ''uploader'' e = (t1, c1)"
    by (cases "kill_if_exists w ups ''uploader'' e")
  obtain t2 c2 where b: "kill_if_exists w ups ''repeater'' c1 = (t2, c2)"
    by (cases "kill_if_exists w ups ''repeater'' c1")
  have "t1 = (case map_of ups ''uploader'' of
        None \<Rightarrow> []
      | Some p \<Rightarrow> if pid_exists w p then [PidExists p, Kill p] else [PidExists p])"
    using kill_if_exists_events[of w ups "''uploader''" e] a by simp
  moreover have "t2 = (case map_of ups ''repeater'' of
        None \<Rightarrow> []
      | Some p \<Rightarrow> if pid_exists w p then [PidExists p, Kill p] else [PidExists p])"
    using kill_if_exists_events[of w ups "''repeater''" c1] b by simp
  moreover have "fst (except_clause w ups e) = t1 @ t2"
    using a b by (simp add: except_clause_def)
  ultimately show ?thesis by simp
qed


lemma except_clause_only_kills:
  "x \<in> set (fst (except_clause w ups e)) \<Longrightarrow> \<exists>p. x = PidExists p \<or> x = Kill p"
  by (auto simp: except_clause_events split: option.splits if_splits)


lemma safe_upload_Raises:
  assumes "try_body pre cf ca ev = (l, t, Raises e)"
  shows "safe_upload pre cf ca ev =
           (t @ fst (except_clause (procs_world ev) (upload_procs l) e) @
              fst (finally_clause ev l (Raises (snd (except_clause (procs_world ev) (upload_procs l) e)))),
            snd (finally_clause ev l (Raises (snd (except_clause (procs_world ev) (upload_procs l) e)))))"
  using assms by (simp add: safe_upload_def split: prod.splits)

lemma safe_upload_Returns:
  assumes "try_body pre cf ca ev = (l, t, Returns u)"
  shows "safe_upload pre cf ca ev =
           (t @ fst (finally_clause ev l (Returns ())), snd (finally_clause ev l (Returns ())))"
  using assms by (simp add: safe_upload_def split: prod.splits)

lemma safe_upload_Pending:
  assumes "try_body pre cf ca ev = (l, t, Pending)"
  shows "safe_upload pre cf ca ev = (t, Pending)"
  using assms by (simp add: safe_upload_def)

lemma finally_clause_Some:
  "term_path l = Some tp \<Longrightarrow>
     finally_clause ev l r = ([Remove tp], case remove_fault ev of Some e \<Rightarrow> Raises e | None \<Rightarrow> r)"
  by (simp add: finally_clause_def)

lemma finally_clause_events:
  "x \<in> set (fst (finally_clause ev l r)) \<Longrightarrow> \<exists>tp. term_path l = Some tp \<and> x = Remove tp"
  by (auto simp: finally_clause_def split: option.splits)

lemma finally_clause_not_Pending:
  "r \<noteq> Pending \<Longrightarrow> snd (finally_clause ev l r) \<noteq> Pending"
  by (auto simp: finally_clause_def split: option.splits)

text \<open>What follows the try suite in the trace is teardown only.\<close>

lemma safe_upload_shape:
  assumes "try_body pre cf ca ev = (l, t, r0)"
  shows "\<exists>c. fst (safe_upload pre cf ca ev) = t @ c \<and>
           (\<forall>x\<in>set c. (\<exists>p. x = PidExists p \<or> x = Kill p) \<or>
                       (\<exists>tp. term_path l = Some tp \<and> x = Remove tp))"
proof (cases r0)
  case (Returns u)
  show ?thesis
    using safe_upload_Returns[OF assms[unfolded Returns]] finally_clause_events[of _ ev l]
    by (intro exI[of _ "fst (finally_clause ev l (Returns ()))"]) auto
next
  case (Raises e)
  let ?te = "fst (except_clause (procs_world ev) (upload_procs l) e)"
  let ?tf = "fst (finally_clause ev l (Raises (snd (except_clause (procs_world ev) (upload_procs l) e))))"
  have "\<forall>x\<in>set (?te @ ?tf). (\<exists>p. x = PidExists p \<or> x = Kill p) \<or>
                       (\<exists>tp. term_path l = Some tp \<and> x = Remove tp)"
    using except_clause_only_kills finally_clause_events by fastforce
  then show ?thesis
    using safe_upload_Raises[OF assms[unfolded Raises]]
    by (intro exI[of _ "?te @ ?tf"]) simp
next
  case Pending
  show ?thesis using safe_upload_Pending[OF assms[unfolded Pending]] by simp
qed

lemma try_body_no_teardown:
  assumes "try_body pre cf ca ev = (l, t, r)"
  shows "Kill p \<notin> set t" "PidExists p \<notin> set t" "Remove q \<notin> set t"
  using try_body_events[OF assms] by fastforce+

lemma signal_shape:
  assumes s: "safe_upload pre cf ca ev = (tr, r)" and w: "WriteTerm tp \<in> set tr"
  shows "\<exists>k after.
        k < length (polls ev) \<and>
        (\<forall>(n, p)\<in>set pre. (polls ev ! k) p = ExitCode 0) \<and>
        (\<forall>j<k. \<forall>(n, p)\<in>set pre. \<forall>c. (polls ev ! j) p = ExitCode c \<longrightarrow> c = 0) \<and>
        (\<forall>f. cf = Some f \<longrightarrow> f ca = None) \<and>
        tr = [GetTermFile, Popen ''repeater'', Popen ''uploader''] @
             concat (replicate k [CheckProcs Precursor, CheckProcs Upload, Sleep]) @
             [CheckProcs Precursor] @ (case cf of None \<Rightarrow> [] | Some f \<Rightarrow> [CheckFunc]) @
             [WriteTerm tp] @ after \<and>
        (\<forall>x\<in>set after. x = CheckProcs Upload \<or> x = Sleep \<or>
           (\<exists>p. x = PidExists p \<or> x = Kill p) \<or> x = Remove tp)"
proof -
  obtain l t r0 where tb: "try_body pre cf ca ev = (l, t, r0)"
    by (cases "try_body pre cf ca ev")
  from safe_upload_shape[OF tb] s obtain c where c: "tr = t @ c"
    "\<forall>x\<in>set c. (\<exists>p. x = PidExists p \<or> x = Kill p) \<or>
                (\<exists>q. term_path l = Some q \<and> x = Remove q)" by auto
  have wt: "WriteTerm tp \<in> set t" using w c by auto
  from try_body_cases[OF tb] wt obtain q fs1 ups t0 t1 where h:
    "spawn ev = (ups, t0, None)" "supervise pre cf ca ev q ups = (t1, r0)"
    "l = \<lparr>term_path = Some q, upload_procs = ups\<rparr>" "t = GetTermFile # t0 @ t1"
    using spawn_events by fastforce
  have t0: "t0 = [Popen ''repeater'', Popen ''uploader'']"
    using spawn_cases[OF h(1)] by auto
  have wt1: "WriteTerm tp \<in> set t1" using wt h(4) t0 by auto
  have q: "q = tp" using supervise_events[OF h(2)] wt1 by auto
  have nw: "\<And>t1' x. wait_precursors pre ups (polls ev) = (t1', x) \<Longrightarrow> WriteTerm tp \<notin> set t1'"
    using wait_precursors_events[of pre ups "polls ev"] by auto
  from supervise_cases[OF h(2)] wt1 nw obtain w1 rest t3 where v:
    "wait_precursors pre ups (polls ev) = (w1, Returns rest)"
    "\<forall>f. cf = Some f \<longrightarrow> f ca = None"
    "t1 = w1 @ (case cf of None \<Rightarrow> [] | Some f \<Rightarrow> [CheckFunc]) @ [WriteTerm q] @ t3"
    "set t3 \<subseteq> {CheckProcs Upload, Sleep}"
  proof (elim disjE exE conjE)
    fix a assume "wait_precursors pre ups (polls ev) = (a, Pending)" "t1 = a"
    with nw wt1 show thesis by blast
  next
    fix a e assume "wait_precursors pre ups (polls ev) = (a, Raises e)" "t1 = a"
    with nw wt1 show thesis by blast
  next
    fix a rest f e
    assume "wait_precursors pre ups (polls ev) = (a, Returns rest)" "t1 = a @ [CheckFunc]"
    with nw[of a] wt1 show thesis by auto
  next
    fix a rest e
    assume "wait_precursors pre ups (polls ev) = (a, Returns rest)"
      "\<forall>f. cf = Some f \<longrightarrow> f ca = None"
      "t1 = a @ (case cf of None \<Rightarrow> [] | Some f \<Rightarrow> [CheckFunc]) @ [WriteTerm q]"
    then show thesis using that[of a rest "[]"] by simp
  next
    fix a rest
    assume "wait_precursors pre ups (polls ev) = (a, Returns rest)"
      "\<forall>f. cf = Some f \<longrightarrow> f ca = None"
      "t1 = a @ (case cf of None \<Rightarrow> [] | Some f \<Rightarrow> [CheckFunc]) @ [WriteTerm q]
          @ fst (wait_uploads ups rest)"
    then show thesis using that[of a rest "fst (wait_uploads ups rest)"]
        wait_uploads_events[of ups rest] by simp
  qed
  from wait_precursors_Returns[OF v(1)] obtain k where k: "k < length (polls ev)"
    "w1 = concat (replicate k [CheckProcs Precursor, CheckProcs Upload, Sleep])
              @ [CheckProcs Precursor]"
    "check_dict_of_procs pre (polls ev ! k) = Inr True"
    "\<forall>j<k. check_dict_of_procs pre (polls ev ! j) = Inr False" by blast
  have a1: "\<forall>(n, p)\<in>set pre. (polls ev ! k) p = ExitCode 0"
    using k(3) by (simp add: check_True_iff)
  have a2: "\<forall>j<k. \<forall>(n, p)\<in>set pre. \<forall>c. (polls ev ! j) p = ExitCode c \<longrightarrow> c = 0"
    using k(4) check_False_no_failure by blast
  have tl: "term_path l = Some tp" using h(3) q by simp
  have a3: "\<forall>x\<in>set (t3 @ c). x = CheckProcs Upload \<or> x = Sleep \<or>
           (\<exists>p. x = PidExists p \<or> x = Kill p) \<or> x = Remove tp"
    using v(4) c(2) tl by auto
  have "tr = [GetTermFile, Popen ''repeater'', Popen ''uploader''] @
             concat (replicate k [CheckProcs Precursor, CheckProcs Upload, Sleep]) @
             [CheckProcs Precursor] @ (case cf of None \<Rightarrow> [] | Some f \<Rightarrow> [CheckFunc]) @
             [WriteTerm tp] @ (t3 @ c)"
    using c(1) h(4) t0 v(3) k(2) q by simp
  with k(1) a1 a2 v(2) a3 show ?thesis by blast
qed

lemmas run_defs = safe_upload_def try_body_def supervise_def spawn_def run_check_def
  finally_clause_def except_clause_def kill_if_exists_def kill_def get_term_file_def
  get_term_dir_def mkdir_def path_exists_def TERM_DIR_def example_env_def Let_def

text \<open>
  Claim C1. If the trace of a call holds the write of the magic string, then: some
  poll of the producers found every one of them exited with status 0 and no earlier poll
  found one with another status; the check function, when one was given, returned
  normally; and the trace is, in this order, token creation, the two spawns, the rounds
  of the first loop, the poll that ended it, the check, the one write of the magic
  string, and after it only polls of the upload group with their sleeps, the teardown
  and the removal of the token. So a check that raises, or a producer seen with a
  non-zero status before all were seen successful, leaves the token unsignaled.
\<close>

theorem signal_only_after_producers_and_validation:
  "(safe_upload pre cf ca ev = (tr, r) \<and> WriteTerm tp \<in> set tr \<longrightarrow>
     (\<exists>k after.
        k < length (polls ev) \<and>
        (\<forall>(n, p)\<in>set pre. (polls ev ! k) p = ExitCode 0) \<and>
        (\<forall>j<k. \<forall>(n, p)\<in>set pre. \<forall>c. (polls ev ! j) p = ExitCode c \<longrightarrow> c = 0) \<and>
        (\<forall>f. cf = Some f \<longrightarrow> f ca = None) \<and>
        tr = [GetTermFile, Popen ''repeater'', Popen ''uploader''] @
             concat (replicate k [CheckProcs Precursor, CheckProcs Upload, Sleep]) @
             [CheckProcs Precursor] @ (case cf of None \<Rightarrow> [] | Some f \<Rightarrow> [CheckFunc]) @
             [WriteTerm tp] @ after \<and>
        (\<forall>x\<in>set after. x = CheckProcs Upload \<or> x = Sleep \<or>
           (\<exists>p. x = PidExists p \<or> x = Kill p) \<or> x = Remove tp))) \<and>
   ((\<exists>f e. cf = Some f \<and> f ca = Some e) \<longrightarrow>
      (\<forall>q. WriteTerm q \<notin> set (fst (safe_upload pre cf ca ev)))) \<and>
   ((\<exists>k<length (polls ev).
        (\<exists>(n, p)\<in>set pre. \<exists>c. (polls ev ! k) p = ExitCode c \<and> c \<noteq> 0) \<and>
        (\<forall>j<k. \<exists>(n, p)\<in>set pre. (polls ev ! j) p = NotExited)) \<longrightarrow>
      (\<forall>q. WriteTerm q \<notin> set (fst (safe_upload pre cf ca ev))))"
proof (intro conjI impI allI notI)
  assume "safe_upload pre cf ca ev = (tr, r) \<and> WriteTerm tp \<in> set tr"
  then have s: "safe_upload pre cf ca ev = (tr, r)" and w: "WriteTerm tp \<in> set tr"
    by simp_all
  show "\<exists>k after.
        k < length (polls ev) \<and>
        (\<forall>(n, p)\<in>set pre. (polls ev ! k) p = ExitCode 0) \<and>
        (\<forall>j<k. \<forall>(n, p)\<in>set pre. \<forall>c. (polls ev ! j) p = ExitCode c \<longrightarrow> c = 0) \<and>
        (\<forall>f. cf = Some f \<longrightarrow> f ca = None) \<and>
        tr = [GetTermFile, Popen ''repeater'', Popen ''uploader''] @
             concat (replicate k [CheckProcs Precursor, CheckProcs Upload, Sleep]) @
             [CheckProcs Precursor] @ (case cf of None \<Rightarrow> [] | Some f \<Rightarrow> [CheckFunc]) @
             [WriteTerm tp] @ after \<and>
        (\<forall>x\<in>set after. x = CheckProcs Upload \<or> x = Sleep \<or>
           (\<exists>p. x = PidExists p \<or> x = Kill p) \<or> x = Remove tp)"
    by (rule signal_shape[OF s w])
next
  fix q
  assume v: "\<exists>f e. cf = Some f \<and> f ca = Some e"
    and w: "WriteTerm q \<in> set (fst (safe_upload pre cf ca ev))"
  have "safe_upload pre cf ca ev = (fst (safe_upload pre cf ca ev), snd (safe_upload pre cf ca ev))"
    by simp
  from signal_shape[OF this w] have "\<forall>f. cf = Some f \<longrightarrow> f ca = None" by blast
  with v show False by auto
next
  fix q
  assume f: "\<exists>k<length (polls ev).
        (\<exists>(n, p)\<in>set pre. \<exists>c. (polls ev ! k) p = ExitCode c \<and> c \<noteq> 0) \<and>
        (\<forall>j<k. \<exists>(n, p)\<in>set pre. (polls ev ! j) p = NotExited)"
    and w: "WriteTerm q \<in> set (fst (safe_upload pre cf ca ev))"
  from f obtain k n p c where k: "k < length (polls ev)" "(n, p) \<in> set pre"
    "(polls ev ! k) p = ExitCode c" "c \<noteq> 0"
    "\<forall>j<k. \<exists>(n, p)\<in>set pre. (polls ev ! j) p = NotExited" by blast
  have "safe_upload pre cf ca ev = (fst (safe_upload pre cf ca ev), snd (safe_upload pre cf ca ev))"
    by simp
  from signal_shape[OF this w] obtain k' where k':
    "\<forall>(n, p)\<in>set pre. (polls ev ! k') p = ExitCode 0"
    "\<forall>j<k'. \<forall>(n, p)\<in>set pre. \<forall>c. (polls ev ! j) p = ExitCode c \<longrightarrow> c = 0" by blast
  consider "k' < k" | "k' = k" | "k < k'" by linarith
  then show False
  proof cases
    case 1
    with k(5) obtain n' p' where "(n', p') \<in> set pre" "(polls ev ! k') p' = NotExited" by blast
    with k'(1) show False by fastforce
  next
    case 2
    with k'(1) k(2,3,4) show False by fastforce
  next
    case 3
    with k'(2) k(2,3,4) show False by blast
  qed
qed

theorem signal_only_after_producers_and_validation_witness:
  "safe_upload [(''dump'', 7)] (Some (\<lambda>a. None)) ()
     (example_env\<lparr>polls := [(\<lambda>p. NotExited),
                            (\<lambda>p. if p = 7 then ExitCode 0 else NotExited),
                            (\<lambda>p. ExitCode 0)]\<rparr>)
   = ([GetTermFile, Popen ''repeater'', Popen ''uploader'',
       CheckProcs Precursor, CheckProcs Upload, Sleep,
       CheckProcs Precursor, CheckFunc,
       WriteTerm [''raid0'', ''repeater_lock_dir'', ''tmpaaa''],
       CheckProcs Upload,
       Remove [''raid0'', ''repeater_lock_dir'', ''tmpaaa'']], Returns ()) \<and>
   safe_upload [(''dump'', 7)] (Some (\<lambda>a. Some (CheckFailure ''checksum''))) ()
     (example_env\<lparr>polls := [(\<lambda>p. NotExited),
                            (\<lambda>p. if p = 7 then ExitCode 0 else NotExited),
                            (\<lambda>p. ExitCode 0)]\<rparr>)
   = ([GetTermFile, Popen ''repeater'', Popen ''uploader'',
       CheckProcs Precursor, CheckProcs Upload, Sleep,
       CheckProcs Precursor, CheckFunc,
       PidExists 102, Kill 102, PidExists 101, Kill 101,
       Remove [''raid0'', ''repeater_lock_dir'', ''tmpaaa'']],
      Raises (CheckFailure ''checksum''))"
  using signal_only_after_producers_and_validation[of "[(''dump'', 7)]" "Some (\<lambda>a. None)" "()"
     "example_env\<lparr>polls := [(\<lambda>p. NotExited),
                            (\<lambda>p. if p = 7 then ExitCode 0 else NotExited),
                            (\<lambda>p. ExitCode 0)]\<rparr>"
     "[GetTermFile, Popen ''repeater'', Popen ''uploader'',
       CheckProcs Precursor, CheckProcs Upload, Sleep,
       CheckProcs Precursor, CheckFunc,
       WriteTerm [''raid0'', ''repeater_lock_dir'', ''tmpaaa''],
       CheckProcs Upload,
       Remove [''raid0'', ''repeater_lock_dir'', ''tmpaaa'']]" "Returns ()"
     "[''raid0'', ''repeater_lock_dir'', ''tmpaaa'']"]
  by (simp add: run_defs)






text \<open>
  Claim C5, as the code has it. A producer exits with status 2, the children are killed,
  and the removal of the token fails: the caller receives the error of the removal in
  place of the failure of the producer.
\<close>

theorem removal_masks_error_counterexample:
  "snd (snd (try_body [(''dump'', 7)] None ()
      (example_env\<lparr>polls := [dump_exited_2],
                    remove_fault := Some (OSError ''No such file or directory'')\<rparr>)))
   = Raises (ProcFailure ''dump'' 2) \<and>
   safe_upload [(''dump'', 7)] None ()
      (example_env\<lparr>polls := [dump_exited_2],
                    remove_fault := Some (OSError ''No such file or directory'')\<rparr>)
   = ([GetTermFile, Popen ''repeater'', Popen ''uploader'', CheckProcs Precursor,
       PidExists 102, Kill 102, PidExists 101, Kill 101,
       Remove [''raid0'', ''repeater_lock_dir'', ''tmpaaa'']],
      Raises (OSError ''No such file or directory''))"
  by (simp add: run_defs dump_exited_2_def)

text \<open>
  Claim C5, amended. For a call in which the token was created: while the call is still
  polling nothing has been removed; once it has ended, with success or with any failure,
  the removal of the token is the last action and the only removal. If the removal
  raises, its error is what the caller receives, in place of any other; if it succeeds,
  the caller receives what the try suite and the except clause produced.
\<close>

theorem token_removed_once_at_end:
  "get_term_file (raid_mount ev) (tmp_names ev) (fs0 ev) = Inr (tp, fs1) \<and>
   safe_upload pre cf ca ev = (tr, r) \<longrightarrow>
     (r = Pending \<longrightarrow> (\<forall>q. Remove q \<notin> set tr)) \<and>
     (r \<noteq> Pending \<longrightarrow>
        (\<exists>tr0. tr = tr0 @ [Remove tp] \<and> (\<forall>q. Remove q \<notin> set tr0)) \<and>
        (\<forall>e. remove_fault ev = Some e \<longrightarrow> r = Raises e) \<and>
        (remove_fault ev = None \<longrightarrow>
           (case snd (snd (try_body pre cf ca ev)) of
              Returns u \<Rightarrow> r = Returns ()
            | Raises e \<Rightarrow>
                r = Raises (snd (except_clause (procs_world ev)
                                   (upload_procs (fst (try_body pre cf ca ev))) e))
            | Pending \<Rightarrow> False)))"
proof
  assume h: "get_term_file (raid_mount ev) (tmp_names ev) (fs0 ev) = Inr (tp, fs1) \<and>
   safe_upload pre cf ca ev = (tr, r)"
  obtain l t r0 where tb: "try_body pre cf ca ev = (l, t, r0)"
    by (cases "try_body pre cf ca ev")
  have tl: "term_path l = Some tp" using try_body_term_path[OF tb] h by blast
  have nr: "\<forall>q. Remove q \<notin> set t" using try_body_no_teardown(3)[OF tb] by blast
  show "(r = Pending \<longrightarrow> (\<forall>q. Remove q \<notin> set tr)) \<and>
     (r \<noteq> Pending \<longrightarrow>
        (\<exists>tr0. tr = tr0 @ [Remove tp] \<and> (\<forall>q. Remove q \<notin> set tr0)) \<and>
        (\<forall>e. remove_fault ev = Some e \<longrightarrow> r = Raises e) \<and>
        (remove_fault ev = None \<longrightarrow>
           (case snd (snd (try_body pre cf ca ev)) of
              Returns u \<Rightarrow> r = Returns ()
            | Raises e \<Rightarrow>
                r = Raises (snd (except_clause (procs_world ev)
                                   (upload_procs (fst (try_body pre cf ca ev))) e))
            | Pending \<Rightarrow> False)))"
  proof (cases r0)
    case (Returns u)
    have "safe_upload pre cf ca ev =
            (t @ [Remove tp], case remove_fault ev of Some e \<Rightarrow> Raises e | None \<Rightarrow> Returns ())"
      using safe_upload_Returns[OF tb[unfolded Returns]] finally_clause_Some[OF tl] by simp
    with h have e: "tr = t @ [Remove tp]"
      "r = (case remove_fault ev of Some e \<Rightarrow> Raises e | None \<Rightarrow> Returns ())" by simp_all
    have "\<exists>tr0. tr = tr0 @ [Remove tp] \<and> (\<forall>q. Remove q \<notin> set tr0)" using e(1) nr by blast
    then show ?thesis using e(2) tb Returns by (auto split: option.splits)
  next
    case (Raises e)
    let ?te = "fst (except_clause (procs_world ev) (upload_procs l) e)"
    let ?e' = "snd (except_clause (procs_world ev) (upload_procs l) e)"
    have "safe_upload pre cf ca ev =
            (t @ ?te @ [Remove tp], case remove_fault ev of Some x \<Rightarrow> Raises x | None \<Rightarrow> Raises ?e')"
      using safe_upload_Raises[OF tb[unfolded Raises]] finally_clause_Some[OF tl] by simp
    with h have e: "tr = (t @ ?te) @ [Remove tp]"
      "r = (case remove_fault ev of Some x \<Rightarrow> Raises x | None \<Rightarrow> Raises ?e')" by simp_all
    have "\<forall>q. Remove q \<notin> set (t @ ?te)" using nr except_clause_only_kills by fastforce
    with e(1) have "\<exists>tr0. tr = tr0 @ [Remove tp] \<and> (\<forall>q. Remove q \<notin> set tr0)" by blast
    then show ?thesis using e(2) tb Raises by (auto split: option.splits)
  next
    case Pending
    have "safe_upload pre cf ca ev = (t, Pending)"
      using safe_upload_Pending[OF tb[unfolded Pending]] .
    with h nr show ?thesis by simp
  qed
qed

theorem token_removed_once_at_end_witness:
  "safe_upload [(''dump'', 7)] None ()
     (example_env\<lparr>polls := [(\<lambda>p. if p = 7 then ExitCode 0 else NotExited),
                            (\<lambda>p. ExitCode 0)]\<rparr>)
   = ([GetTermFile, Popen ''repeater'', Popen ''uploader'', CheckProcs Precursor,
       WriteTerm [''raid0'', ''repeater_lock_dir'', ''tmpaaa''], CheckProcs Upload,
       Remove [''raid0'', ''repeater_lock_dir'', ''tmpaaa'']], Returns ()) \<and>
   get_term_file [''raid0''] [''aaa''] \<lparr>dirs = [[], [''raid0'']], files = Map.empty\<rparr>
   = Inr ([''raid0'', ''repeater_lock_dir'', ''tmpaaa''],
          \<lparr>dirs = [[''raid0'', ''repeater_lock_dir''], [], [''raid0'']],
           files = [[''raid0'', ''repeater_lock_dir'', ''tmpaaa''] \<mapsto> []]\<rparr>)"
  using token_removed_once_at_end[of
     "example_env\<lparr>polls := [(\<lambda>p. if p = 7 then ExitCode 0 else NotExited),
                            (\<lambda>p. ExitCode 0)]\<rparr>"
     "[''raid0'', ''repeater_lock_dir'', ''tmpaaa'']"
     "\<lparr>dirs = [[''raid0'', ''repeater_lock_dir''], [], [''raid0'']],
           files = [[''raid0'', ''repeater_lock_dir'', ''tmpaaa''] \<mapsto> []]\<rparr>"
     "[(''dump'', 7)]" None "()"
     "[GetTermFile, Popen ''repeater'', Popen ''uploader'', CheckProcs Precursor,
       WriteTerm [''raid0'', ''repeater_lock_dir'', ''tmpaaa''], CheckProcs Upload,
       Remove [''raid0'', ''repeater_lock_dir'', ''tmpaaa'']]" "Returns ()"]
  by (simp add: run_defs)

end
